theory Spec2Isabelle
  imports Main
begin

section \<open>Strings\<close>

text \<open>
  A Python \<open>str\<close> is modelled as a \<open>string\<close>; a \<open>char\<close> stands for a code point
  below 256. The functions of this section are the methods of \<open>str\<close> that
  \<open>afuzz.py\<close> calls, restricted to that range.
\<close>

abbreviation NL :: char where
  "NL \<equiv> CHR 0x0A"

abbreviation CR :: char where
  "CR \<equiv> CHR 0x0D"

abbreviation AT :: char where
  "AT \<equiv> CHR ''@''"

text \<open>
  \<open>str.isspace\<close> on one character: tab, line feed, vertical tab, form feed,
  carriage return, the four separators 0x1C to 0x1F, space, NEL (0x85) and the
  no-break space (0xA0).
\<close>

definition isspace :: "char \<Rightarrow> bool" where
  "isspace c = ((of_char c :: nat) \<in> {9, 10, 11, 12, 13, 28, 29, 30, 31, 32, 133, 160})"

definition lstrip :: "string \<Rightarrow> string" where
  "lstrip s = dropWhile isspace s"

definition rstrip :: "string \<Rightarrow> string" where
  "rstrip s = rev (dropWhile isspace (rev s))"

text \<open>\<open>s.strip()\<close>: leading and trailing whitespace removed.\<close>

definition strip :: "string \<Rightarrow> string" where
  "strip s = rstrip (lstrip s)"

text \<open>
  \<open>s.replace(old, new)\<close> for a pattern \<open>old\<close> of one character, which is the only
  way the program calls it (\<open>base_url.replace('@', ...)\<close>): every occurrence is
  replaced, left to right.
\<close>

fun replace :: "string \<Rightarrow> char \<Rightarrow> string \<Rightarrow> string" where
  "replace [] old new = []"
| "replace (c # cs) old new =
     (if c = old then new @ replace cs old new else c # replace cs old new)"

text \<open>\<open>str.lower\<close> on one character: A to Z, and the Latin-1 capitals 0xC0 to 0xDE
  without the multiplication sign 0xD7.\<close>

definition lower_char :: "char \<Rightarrow> char" where
  "lower_char c =
     (let n = (of_char c :: nat)
      in if (65 \<le> n \<and> n \<le> 90) \<or> (192 \<le> n \<and> n \<le> 222 \<and> n \<noteq> 215)
         then char_of (n + 32) else c)"

definition lower :: "string \<Rightarrow> string" where
  "lower s = map lower_char s"

text \<open>\<open>str(n)\<close> for a natural number: its decimal digits.\<close>

definition digit :: "nat \<Rightarrow> char" where
  "digit d = char_of (48 + d)"

fun str_nat :: "nat \<Rightarrow> string" where
  "str_nat n = (if n < 10 then [digit n] else str_nat (n div 10) @ [digit (n mod 10)])"

declare str_nat.simps [simp del]

section \<open>Building the probe URL\<close>

text \<open>
  Line 31 of \<open>sync_fuzz\<close> and line 55 of \<open>async_fuzz\<close> are the same expression,
  \<open>base_url.replace('@', payload.strip())\<close>.
\<close>

definition probe_url :: "string \<Rightarrow> string \<Rightarrow> string" where
  "probe_url base_url payload = replace base_url AT (strip payload)"

section \<open>The world the program runs in\<close>

text \<open>
  A path names nothing, a directory, or a regular file with its read and write
  permission and its text. The file system is flat: a path has no parent
  directory to be missing. File contents are text as Python's text mode sees it
  on a system whose line separator is the line feed.
\<close>

datatype node = Dir | File bool bool string

text \<open>The exceptions that the modelled library calls raise.\<close>

datatype exn =
  FileNotFoundError string | IsADirectoryError string | PermissionError string | EOFError

text \<open>
  What one HTTP GET comes to: a response with its status code, or an exception
  of the HTTP library (connection refused, timeout, DNS failure and so on).
\<close>

datatype reply = Response nat | Failed

text \<open>
  The network is a parameter: \<open>tr i url\<close> is what the GET of the \<open>i\<close>-th probe of
  the run (counting from 0, in payload order) comes to when it asks for \<open>url\<close>.
\<close>

type_synonym transport = "nat \<Rightarrow> string \<Rightarrow> reply"

datatype net_event = Request string | Resolved string reply

text \<open>
  What the operator sees: \<open>print(s)\<close>, \<open>print(colored(s, colour))\<close> (the \<open>termcolor\<close>
  library is left uninterpreted), and the prompt of \<open>input(prompt)\<close>.
\<close>

datatype out = Print string | PrintColored string string | Prompt string

record world =
  files :: "string \<rightharpoonup> node"
  stdout :: "out list"
  net :: "net_event list"

definition print :: "string \<Rightarrow> world \<Rightarrow> world" where
  "print s w = w\<lparr>stdout := stdout w @ [Print s]\<rparr>"

definition print_colored :: "string \<Rightarrow> string \<Rightarrow> world \<Rightarrow> world" where
  "print_colored s colour w = w\<lparr>stdout := stdout w @ [PrintColored s colour]\<rparr>"

text \<open>\<open>os.path.isfile\<close> and \<open>os.path.exists\<close>.\<close>

definition isfile :: "world \<Rightarrow> string \<Rightarrow> bool" where
  "isfile w path = (case files w path of Some (File r wr c) \<Rightarrow> True | _ \<Rightarrow> False)"

definition exists_path :: "world \<Rightarrow> string \<Rightarrow> bool" where
  "exists_path w path = (files w path \<noteq> None)"

text \<open>
  \<open>open(path, 'w')\<close>: a directory and a file without write permission raise; an
  existing file is truncated at once; a missing one is created empty.
\<close>

definition open_w :: "string \<Rightarrow> world \<Rightarrow> exn + world" where
  "open_w path w =
     (case files w path of
        Some Dir \<Rightarrow> Inl (IsADirectoryError path)
      | Some (File r wr c) \<Rightarrow>
          if wr then Inr (w\<lparr>files := (files w)(path \<mapsto> File r wr [])\<rparr>)
          else Inl (PermissionError path)
      | None \<Rightarrow> Inr (w\<lparr>files := (files w)(path \<mapsto> File True True [])\<rparr>))"

text \<open>
  Leaving the \<open>with\<close> block closes the file: the data of the \<open>write\<close> calls made
  on the handle, in order, becomes the file's text.
\<close>

definition close_w :: "string \<Rightarrow> string list \<Rightarrow> world \<Rightarrow> world" where
  "close_w path written w =
     (case files w path of
        Some (File r wr c) \<Rightarrow> w\<lparr>files := (files w)(path \<mapsto> File r wr (c @ concat written))\<rparr>
      | _ \<Rightarrow> w)"

text \<open>\<open>open(path, 'r')\<close> followed by reading the whole text.\<close>

definition open_r :: "string \<Rightarrow> world \<Rightarrow> exn + string" where
  "open_r path w =
     (case files w path of
        Some (File r wr c) \<Rightarrow> if r then Inr c else Inl (PermissionError path)
      | Some Dir \<Rightarrow> Inl (IsADirectoryError path)
      | None \<Rightarrow> Inl (FileNotFoundError path))"

text \<open>The text of a file, for stating properties.\<close>

definition content :: "world \<Rightarrow> string \<Rightarrow> string option" where
  "content w path = (case files w path of Some (File r wr c) \<Rightarrow> Some c | _ \<Rightarrow> None)"

section \<open>Sequential mode: \<open>sync_fuzz\<close>\<close>

text \<open>
  The local variables of the function while the \<open>with\<close> block runs:
  \<open>success_count\<close>, the data given to \<open>log_file.write\<close> so far (one entry for each
  call), and the world.
\<close>

record frame =
  success_count :: nat
  log_file :: "string list"
  env :: world

text \<open>
  \<open>requests.get(url, timeout=10)\<close> blocks: the request goes out and is resolved
  before the call returns or raises. The index \<open>i\<close> is the position of the payload
  in the loop; it only selects the answer of the transport.
\<close>

definition requests_get :: "transport \<Rightarrow> nat \<Rightarrow> string \<Rightarrow> world \<Rightarrow> reply \<times> world" where
  "requests_get tr i url w =
     (tr i url, w\<lparr>net := net w @ [Request url, Resolved url (tr i url)]\<rparr>)"

text \<open>
  The three statements run for a response of status 200 (in both modes). The
  \<open>print\<close> and the \<open>write\<close> are taken to succeed: a full disk or a closed
  standard output is outside the model.
\<close>

definition record_success :: "string \<Rightarrow> frame \<Rightarrow> frame" where
  "record_success url fr =
     fr\<lparr>success_count := success_count fr + 1,
        env := print_colored url ''green'' (env fr),
        log_file := log_file fr @ [url @ [NL]]\<rparr>"

text \<open>
  The body of the \<open>for\<close> loop, lines 31 to 39. An exception of the GET is caught
  by \<open>except Exception\<close> and dropped.
\<close>

definition sync_body :: "transport \<Rightarrow> string \<Rightarrow> nat \<Rightarrow> string \<Rightarrow> frame \<Rightarrow> frame" where
  "sync_body tr base_url i payload fr =
     (let url = probe_url base_url payload;
          (r, w) = requests_get tr i url (env fr);
          fr1 = fr\<lparr>env := w\<rparr>
      in case r of
           Response status_code \<Rightarrow>
             if status_code = 200 then record_success url fr1 else fr1
         | Failed \<Rightarrow> fr1)"

fun sync_loop :: "transport \<Rightarrow> string \<Rightarrow> nat \<Rightarrow> string list \<Rightarrow> frame \<Rightarrow> frame" where
  "sync_loop tr base_url i [] fr = fr"
| "sync_loop tr base_url i (payload # payloads) fr =
     sync_loop tr base_url (Suc i) payloads (sync_body tr base_url i payload fr)"

text \<open>The \<open>with\<close> block of lines 29 to 39, up to the moment the file is closed.\<close>

definition sync_block :: "transport \<Rightarrow> string \<Rightarrow> string list \<Rightarrow> string \<Rightarrow> world \<Rightarrow> exn + frame" where
  "sync_block tr base_url payloads output_file w =
     (case open_w output_file w of
        Inl e \<Rightarrow> Inl e
      | Inr w1 \<Rightarrow>
          Inr (sync_loop tr base_url 0 payloads \<lparr>success_count = 0, log_file = [], env = w1\<rparr>))"

definition summary :: "nat \<Rightarrow> string" where
  "summary n = NL # ''Successful responses (200): '' @ str_nat n"

definition sync_fuzz :: "transport \<Rightarrow> string \<Rightarrow> string list \<Rightarrow> string \<Rightarrow> world \<Rightarrow> exn + world" where
  "sync_fuzz tr base_url payloads output_file w =
     (case sync_block tr base_url payloads output_file w of
        Inl e \<Rightarrow> Inl e
      | Inr fr \<Rightarrow>
          Inr (print (summary (success_count fr)) (close_w output_file (log_file fr) (env fr))))"

section \<open>Concurrent mode: \<open>async_fuzz\<close> and \<open>fetch_url\<close>\<close>

text \<open>
  What \<open>fetch_url\<close> returns: the dictionary \<open>{'url': url, 'status': status}\<close>, or
  the exception object it caught.
\<close>

datatype fetch_result = Dict string nat | Exc

definition fetch_url :: "transport \<Rightarrow> nat \<Rightarrow> string \<Rightarrow> fetch_result" where
  "fetch_url tr i url =
     (case tr i url of Response status \<Rightarrow> Dict url status | Failed \<Rightarrow> Exc)"

text \<open>
  \<open>asyncio.gather(*tasks, return_exceptions=True)\<close>. All tasks are started; the
  environment decides in which order they resolve: \<open>order\<close> lists task indices
  in order of arrival. The result of task \<open>i\<close> is stored in slot \<open>i\<close>, whatever the
  moment it arrives; an index that names no task, or a task already resolved,
  changes nothing. \<open>gather\<close> returns the slots once all are filled; while a task
  is unresolved it does not return (\<open>None\<close>).
\<close>

definition task_done ::
  "transport \<Rightarrow> string list \<Rightarrow> nat \<Rightarrow> fetch_result option list \<times> world
     \<Rightarrow> fetch_result option list \<times> world" where
  "task_done tr urls i st =
     (let (slots, w) = st
      in if i < length urls \<and> slots ! i = None
         then (slots[i := Some (fetch_url tr i (urls ! i))],
               w\<lparr>net := net w @ [Resolved (urls ! i) (tr i (urls ! i))]\<rparr>)
         else (slots, w))"

definition gather ::
  "transport \<Rightarrow> nat list \<Rightarrow> string list \<Rightarrow> world \<Rightarrow> (fetch_result list \<times> world) option" where
  "gather tr order urls w =
     (let (slots, w1) =
            fold (task_done tr urls) order
              (replicate (length urls) None, w\<lparr>net := net w @ map Request urls\<rparr>)
      in if list_all (\<lambda>s. s \<noteq> None) slots then Some (map the slots, w1) else None)"

text \<open>The body of the loop over the results, lines 60 to 63.\<close>

definition async_body :: "fetch_result \<Rightarrow> frame \<Rightarrow> frame" where
  "async_body result fr =
     (case result of
        Dict url status \<Rightarrow> if status = 200 then record_success url fr else fr
      | Exc \<Rightarrow> fr)"

fun async_loop :: "fetch_result list \<Rightarrow> frame \<Rightarrow> frame" where
  "async_loop [] fr = fr"
| "async_loop (result # results) fr = async_loop results (async_body result fr)"

text \<open>
  The \<open>with\<close> block of lines 52 to 63. The tasks are the coroutines
  \<open>fetch_url(session, url)\<close>, one for each payload, in payload order.
\<close>

definition async_block ::
  "transport \<Rightarrow> nat list \<Rightarrow> string \<Rightarrow> string list \<Rightarrow> string \<Rightarrow> world \<Rightarrow> (exn + frame) option" where
  "async_block tr order base_url payloads output_file w =
     (case open_w output_file w of
        Inl e \<Rightarrow> Some (Inl e)
      | Inr w1 \<Rightarrow>
          (let tasks = map (probe_url base_url) payloads
           in case gather tr order tasks w1 of
                None \<Rightarrow> None
              | Some (results, w2) \<Rightarrow>
                  Some (Inr (async_loop results \<lparr>success_count = 0, log_file = [], env = w2\<rparr>))))"

definition async_fuzz ::
  "transport \<Rightarrow> nat list \<Rightarrow> string \<Rightarrow> string list \<Rightarrow> string \<Rightarrow> world \<Rightarrow> (exn + world) option" where
  "async_fuzz tr order base_url payloads output_file w =
     (case async_block tr order base_url payloads output_file w of
        None \<Rightarrow> None
      | Some (Inl e) \<Rightarrow> Some (Inl e)
      | Some (Inr fr) \<Rightarrow>
          Some (Inr (print (summary (success_count fr))
                       (close_w output_file (log_file fr) (env fr)))))"

section \<open>The driver: \<open>is_valid_url\<close> and \<open>main\<close>\<close>

text \<open>
  \<open>urllib.parse.urlparse\<close> is a parameter of the model: it gives the scheme and
  the network location of a string, or raises \<open>ValueError\<close> (\<open>None\<close>).
\<close>

record parsed =
  scheme :: string
  netloc :: string

definition is_valid_url :: "(string \<Rightarrow> parsed option) \<Rightarrow> string \<Rightarrow> bool" where
  "is_valid_url urlparse u =
     (case urlparse u of
        Some result \<Rightarrow> scheme result \<noteq> [] \<and> netloc result \<noteq> []
      | None \<Rightarrow> False)"

datatype mode = Sync | Async

record args =
  arg_url :: string
  arg_wordlist :: string
  arg_output :: string
  arg_mode :: mode

text \<open>
  How the process ends: \<open>sys.exit(n)\<close>, the end of \<open>main\<close>, or an exception that
  nothing catches, which the interpreter reports with a traceback and status 1.
\<close>

datatype exit = SysExit nat | Finished | Traceback exn

fun exit_status :: "exit \<Rightarrow> nat" where
  "exit_status (SysExit n) = n"
| "exit_status Finished = 0"
| "exit_status (Traceback e) = 1"

definition quoted :: "string \<Rightarrow> string" where
  "quoted s = [CHR 0x27] @ s @ [CHR 0x27]"

text \<open>\<open>str(e)\<close> of an exception, for a path of plain characters.\<close>

fun str_exn :: "exn \<Rightarrow> string" where
  "str_exn (FileNotFoundError p) = ''[Errno 2] No such file or directory: '' @ quoted p"
| "str_exn (IsADirectoryError p) = ''[Errno 21] Is a directory: '' @ quoted p"
| "str_exn (PermissionError p) = ''[Errno 13] Permission denied: '' @ quoted p"
| "str_exn EOFError = ''EOF when reading a line''"

text \<open>
  \<open>f.readlines()\<close> on a file opened in text mode. Universal newlines: a carriage
  return, alone or before a line feed, reads as a line feed. Each line keeps its
  line feed; the last line may have none.
\<close>

fun universal_newlines :: "string \<Rightarrow> string" where
  "universal_newlines [] = []"
| "universal_newlines [c] = (if c = CR then [NL] else [c])"
| "universal_newlines (c # d # cs) =
     (if c = CR
      then (if d = NL then NL # universal_newlines cs else NL # universal_newlines (d # cs))
      else c # universal_newlines (d # cs))"

fun split_lines :: "string \<Rightarrow> string \<Rightarrow> string list" where
  "split_lines cur [] = (if cur = [] then [] else [cur])"
| "split_lines cur (c # cs) =
     (if c = NL then (cur @ [c]) # split_lines [] cs else split_lines (cur @ [c]) cs)"

definition readlines :: "string \<Rightarrow> string list" where
  "readlines text = split_lines [] (universal_newlines text)"

text \<open>
  Lines 110 to 114. \<open>stdin\<close> is the line the operator types at the prompt, or
  \<open>None\<close> when the input is at its end and \<open>input\<close> raises \<open>EOFError\<close>. The result
  is the way the process ends here, or \<open>None\<close> when it goes on.
\<close>

definition confirm_overwrite :: "string option \<Rightarrow> string \<Rightarrow> world \<Rightarrow> exit option \<times> world" where
  "confirm_overwrite stdin out_path w =
     (if exists_path w out_path
      then (let w1 = w\<lparr>stdout := stdout w @
                      [Prompt (''[?] Output file '' @ quoted out_path
                                 @ '' already exists. Overwrite? (y/n): '')]\<rparr>
            in case stdin of
                 None \<Rightarrow> (Some (Traceback EOFError), w1)
               | Some line \<Rightarrow>
                   (let overwrite = lower (strip line)
                    in if overwrite \<noteq> ''y''
                       then (Some (SysExit 1), print ''[!] Operation aborted.'' w1)
                       else (None, w1)))
      else (None, w))"

text \<open>Lines 125 to 128.\<close>

definition run_mode ::
  "transport \<Rightarrow> nat list \<Rightarrow> args \<Rightarrow> string list \<Rightarrow> world \<Rightarrow> (exit \<times> world) option" where
  "run_mode tr order a payloads w =
     (case arg_mode a of
        Sync \<Rightarrow>
          (case sync_fuzz tr (arg_url a) payloads (arg_output a) w of
             Inl e \<Rightarrow> Some (Traceback e, w)
           | Inr w1 \<Rightarrow> Some (Finished, w1))
      | Async \<Rightarrow>
          (case async_fuzz tr order (arg_url a) payloads (arg_output a) w of
             None \<Rightarrow> None
           | Some (Inl e) \<Rightarrow> Some (Traceback e, w)
           | Some (Inr w1) \<Rightarrow> Some (Finished, w1)))"

text \<open>
  \<open>main\<close>, after \<open>argparse\<close> has accepted the command line. The result is the way
  the process ends and the world it leaves, or \<open>None\<close> when it does not end.
  (In the source the description string given to \<open>ArgumentParser\<close>, lines 88 and
  89, runs over a line break inside a plain string literal, which the Python
  parser rejects; the model is of the function with that literal on one line.)
\<close>

definition main ::
  "(string \<Rightarrow> parsed option) \<Rightarrow> transport \<Rightarrow> nat list \<Rightarrow> string option \<Rightarrow> args \<Rightarrow> world
     \<Rightarrow> (exit \<times> world) option" where
  "main urlparse tr order stdin a w =
     (if \<not> is_valid_url urlparse (arg_url a)
      then Some (SysExit 1, print ''[!] Invalid base URL format.'' w)
      else if AT \<notin> set (arg_url a)
      then Some (SysExit 1,
                 print (''[!] Base URL must contain a placeholder '' @ quoted ''@'' @ ''.'') w)
      else if \<not> isfile w (arg_wordlist a)
      then Some (SysExit 1,
                 print (''[!] Wordlist file '' @ quoted (arg_wordlist a) @ '' not found.'') w)
      else (case confirm_overwrite stdin (arg_output a) w of
              (Some x, w1) \<Rightarrow> Some (x, w1)
            | (None, w1) \<Rightarrow>
                (case open_r (arg_wordlist a) w1 of
                   Inl e \<Rightarrow>
                     Some (SysExit 1, print (''[!] Error reading wordlist: '' @ str_exn e) w1)
                 | Inr text \<Rightarrow> run_mode tr order a (readlines text) w1)))"

section \<open>Notions used to state the properties\<close>

text \<open>The requests of a network trace, in order.\<close>

fun requests_of :: "net_event list \<Rightarrow> string list" where
  "requests_of [] = []"
| "requests_of (Request u # es) = u # requests_of es"
| "requests_of (Resolved u r # es) = requests_of es"

text \<open>A trace in which each request is resolved before the next one goes out.\<close>

fun one_at_a_time :: "net_event list \<Rightarrow> bool" where
  "one_at_a_time [] = True"
| "one_at_a_time (Request u # Resolved v r # es) = (u = v \<and> one_at_a_time es)"
| "one_at_a_time es = False"

text \<open>
  The probe URLs that the transport answers with status 200, in payload order,
  the first payload being probe number \<open>i\<close>.
\<close>

fun hits :: "transport \<Rightarrow> string \<Rightarrow> nat \<Rightarrow> string list \<Rightarrow> string list" where
  "hits tr base_url i [] = []"
| "hits tr base_url i (payload # payloads) =
     (if tr i (probe_url base_url payload) = Response 200
      then probe_url base_url payload # hits tr base_url (Suc i) payloads
      else hits tr base_url (Suc i) payloads)"

text \<open>What task number \<open>i\<close>, \<open>i + 1\<close>, ... return for a list of URLs.\<close>

fun fetch_all :: "transport \<Rightarrow> nat \<Rightarrow> string list \<Rightarrow> fetch_result list" where
  "fetch_all tr i [] = []"
| "fetch_all tr i (u # us) = fetch_url tr i u # fetch_all tr (Suc i) us"

text \<open>The URLs of the results that are a dictionary of status 200.\<close>

fun hit_urls :: "fetch_result list \<Rightarrow> string list" where
  "hit_urls [] = []"
| "hit_urls (Dict u status # rs) = (if status = 200 then u # hit_urls rs else hit_urls rs)"
| "hit_urls (Exc # rs) = hit_urls rs"


text \<open>The operator's answer at the prompt is something other than \<open>y\<close>.\<close>

definition declined :: "string option \<Rightarrow> bool" where
  "declined stdin = (case stdin of Some line \<Rightarrow> lower (strip line) \<noteq> ''y'' | None \<Rightarrow> False)"

text \<open>
  The five input errors: the template fails validation, the template has no
  placeholder, the wordlist is not an existing file, the operator declines to
  overwrite an existing output path, reading the wordlist raises.
\<close>

definition input_error ::
  "(string \<Rightarrow> parsed option) \<Rightarrow> string option \<Rightarrow> args \<Rightarrow> world \<Rightarrow> bool" where
  "input_error urlparse stdin a w =
     (\<not> is_valid_url urlparse (arg_url a)
      \<or> AT \<notin> set (arg_url a)
      \<or> \<not> isfile w (arg_wordlist a)
      \<or> (exists_path w (arg_output a) \<and> declined stdin)
      \<or> isl (open_r (arg_wordlist a) w))"

text \<open>The two other ways in which \<open>main\<close> is cut short: the prompt meets the end
  of the input, the output path cannot be opened for writing.\<close>

definition prompt_eof :: "string option \<Rightarrow> args \<Rightarrow> world \<Rightarrow> bool" where
  "prompt_eof stdin a w = (exists_path w (arg_output a) \<and> stdin = None)"

definition output_unwritable :: "args \<Rightarrow> world \<Rightarrow> bool" where
  "output_unwritable a w = isl (open_w (arg_output a) w)"

text \<open>The text of a log that holds these URLs, one on each line.\<close>

definition log_text :: "string list \<Rightarrow> string" where
  "log_text urls = concat (map (\<lambda>u. u @ [NL]) urls)"

text \<open>
  The node that a successful \<open>open(path, 'w')\<close> in world \<open>w\<close>, followed by writing
  \<open>wtext\<close>, leaves at \<open>path\<close>: a file that existed keeps its read permission, a
  new file may be read and written.
\<close>

definition log_node :: "world \<Rightarrow> string \<Rightarrow> string \<Rightarrow> node" where
  "log_node w path wtext =
     File (case files w path of Some (File r wr c) \<Rightarrow> r | _ \<Rightarrow> True) True wtext"

text \<open>The slots of \<open>gather\<close>: each is empty or holds the result of its own task.\<close>

definition slots_ok :: "transport \<Rightarrow> string list \<Rightarrow> fetch_result option list \<Rightarrow> bool" where
  "slots_ok tr urls slots =
     (length slots = length urls
      \<and> (\<forall>i<length urls. slots ! i = None \<or> slots ! i = Some (fetch_url tr i (urls ! i))))"

text \<open>Each of the tasks \<open>0\<close>, ..., \<open>n - 1\<close> is in the order of arrival: it resolves.\<close>

definition every_task_resolves :: "nat list \<Rightarrow> nat \<Rightarrow> bool" where
  "every_task_resolves order n = list_all (\<lambda>i. i \<in> set order) [0..<n]"

section \<open>Example inputs\<close>

text \<open>
  The scenario of the specification: the template \<open>http://example.test/@\<close>, a
  transport that answers 200 for \<open>/admin\<close> and \<open>/\<close>, 404 for \<open>/login\<close>, and fails
  for anything else.
\<close>

definition example_template :: string where
  "example_template = ''http://example.test/@''"

definition example_payloads :: "string list" where
  "example_payloads = [''admin'' @ [NL], ''login'' @ [NL], [NL]]"

definition example_transport :: transport where
  "example_transport i u =
     (if u = ''http://example.test/admin'' \<or> u = ''http://example.test/'' then Response 200
      else if u = ''http://example.test/login'' then Response 404
      else Failed)"

text \<open>The text of the wordlist: the lines \<open>admin\<close>, \<open>login\<close> and an empty line.\<close>

definition example_wordlist :: string where
  "example_wordlist = ''admin'' @ [NL] @ ''login'' @ [NL] @ [NL]"

text \<open>A transport whose first probe fails.\<close>

definition flaky :: transport where
  "flaky i u = (if i = 0 then Failed else example_transport i u)"

text \<open>What \<open>urlparse\<close> gives for the strings of the examples.\<close>

definition example_urlparse :: "string \<Rightarrow> parsed option" where
  "example_urlparse u =
     (if u = ''http://example.test/@'' \<or> u = ''http://example.test/x''
      then Some \<lparr>scheme = ''http'', netloc = ''example.test''\<rparr>
      else Some \<lparr>scheme = [], netloc = []\<rparr>)"

text \<open>
  A file system with a wordlist, the log of an earlier run, a file that may not
  be written, a file that may not be read, and a directory.
\<close>

definition example_world :: world where
  "example_world =
     \<lparr>files = [''words.txt'' \<mapsto> File True True example_wordlist,
               ''old.txt'' \<mapsto> File True True (''http://example.test/old'' @ [NL]),
               ''locked.txt'' \<mapsto> File True False [],
               ''secret.txt'' \<mapsto> File False True ''admin'',
               ''dir'' \<mapsto> Dir],
      stdout = [], net = []\<rparr>"

definition example_args :: "string \<Rightarrow> mode \<Rightarrow> args" where
  "example_args out_path m =
     \<lparr>arg_url = example_template, arg_wordlist = ''words.txt'', arg_output = out_path,
      arg_mode = m\<rparr>"

section \<open>Properties of the substitution\<close>

lemma set_replace:
  "set (replace s old new) = (set s - {old}) \<union> (if old \<in> set s then set new else {})"
  by (induction s) auto

text \<open>
  Claim C5. When the trimmed payload holds no \<open>@\<close>, the probe URL holds no \<open>@\<close>.
  The claim asks this of templates with exactly one \<open>@\<close>; it holds for every
  template, whatever the number of placeholders.
\<close>

theorem probe_url_no_placeholder_left:
  "AT \<notin> set (strip payload) \<Longrightarrow> AT \<notin> set (probe_url base_url payload)"
  by (simp add: probe_url_def set_replace)

text \<open>The theorem at the first payload of the example.\<close>

theorem probe_url_no_placeholder_left_witness:
  "AT \<notin> set (strip (''admin'' @ [NL]))
   \<and> AT \<notin> set (probe_url ''http://example.test/@'' (''admin'' @ [NL]))"
proof -
  have h: "AT \<notin> set (strip (''admin'' @ [NL]))"
    by (simp add: strip_def lstrip_def rstrip_def isspace_def)
  from probe_url_no_placeholder_left [OF h] h show ?thesis by blast
qed

section \<open>The two engines, step by step\<close>

lemma requests_of_append: "requests_of (es @ fs) = requests_of es @ requests_of fs"
  by (induction es rule: requests_of.induct) auto

lemmas sync_body_defs =
  sync_body_def requests_get_def record_success_def print_colored_def Let_def

lemma sync_body_count:
  "success_count (sync_body tr t i p fr) = success_count fr + length (hits tr t i [p])"
  by (simp add: sync_body_defs split: reply.splits)

lemma sync_body_log:
  "log_file (sync_body tr t i p fr) = log_file fr @ map (\<lambda>u. u @ [NL]) (hits tr t i [p])"
  by (simp add: sync_body_defs split: reply.splits)

lemma sync_body_stdout:
  "stdout (env (sync_body tr t i p fr)) =
     stdout (env fr) @ map (\<lambda>u. PrintColored u ''green'') (hits tr t i [p])"
  by (simp add: sync_body_defs split: reply.splits)

lemma sync_body_files: "files (env (sync_body tr t i p fr)) = files (env fr)"
  by (simp add: sync_body_defs split: reply.splits)

lemma sync_body_net:
  "net (env (sync_body tr t i p fr)) =
     net (env fr) @ [Request (probe_url t p), Resolved (probe_url t p) (tr i (probe_url t p))]"
  by (simp add: sync_body_defs split: reply.splits)

lemma hits_Cons:
  "hits tr t i (p # ps) = hits tr t i [p] @ hits tr t (Suc i) ps"
  by simp

lemma sync_loop_count:
  "success_count (sync_loop tr t i ps fr) = success_count fr + length (hits tr t i ps)"
proof (induction ps arbitrary: i fr)
  case Nil
  show ?case by simp
next
  case (Cons p ps)
  show ?case
    unfolding sync_loop.simps Cons.IH sync_body_count hits_Cons [of tr t i p ps] by simp
qed

lemma sync_loop_log:
  "log_file (sync_loop tr t i ps fr) = log_file fr @ map (\<lambda>u. u @ [NL]) (hits tr t i ps)"
proof (induction ps arbitrary: i fr)
  case Nil
  show ?case by simp
next
  case (Cons p ps)
  show ?case
    unfolding sync_loop.simps Cons.IH sync_body_log hits_Cons [of tr t i p ps] by simp
qed

lemma sync_loop_stdout:
  "stdout (env (sync_loop tr t i ps fr)) =
     stdout (env fr) @ map (\<lambda>u. PrintColored u ''green'') (hits tr t i ps)"
proof (induction ps arbitrary: i fr)
  case Nil
  show ?case by simp
next
  case (Cons p ps)
  show ?case
    unfolding sync_loop.simps Cons.IH sync_body_stdout hits_Cons [of tr t i p ps] by simp
qed

lemma sync_loop_files: "files (env (sync_loop tr t i ps fr)) = files (env fr)"
  by (induction ps arbitrary: i fr) (simp_all add: sync_body_files)

lemma sync_loop_net:
  "\<exists>es. net (env (sync_loop tr t i ps fr)) = net (env fr) @ es
        \<and> requests_of es = map (probe_url t) ps \<and> one_at_a_time es"
proof (induction ps arbitrary: i fr)
  case Nil
  then show ?case by simp
next
  case (Cons p ps)
  obtain es where es: "net (env (sync_loop tr t (Suc i) ps (sync_body tr t i p fr)))
       = net (env (sync_body tr t i p fr)) @ es"
    "requests_of es = map (probe_url t) ps" "one_at_a_time es"
    using Cons.IH by blast
  let ?u = "probe_url t p"
  have "net (env (sync_loop tr t i (p # ps) fr))
          = net (env fr) @ (Request ?u # Resolved ?u (tr i ?u) # es)"
    using es(1) by (simp add: sync_body_net)
  moreover have "requests_of (Request ?u # Resolved ?u (tr i ?u) # es) = map (probe_url t) (p # ps)"
    using es(2) by simp
  moreover have "one_at_a_time (Request ?u # Resolved ?u (tr i ?u) # es)"
    using es(3) by simp
  ultimately show ?case by blast
qed


lemma async_loop_count:
  "success_count (async_loop rs fr) = success_count fr + length (hit_urls rs)"
  by (induction rs arbitrary: fr rule: hit_urls.induct)
     (simp_all add: async_body_def record_success_def)

lemma async_loop_log:
  "log_file (async_loop rs fr) = log_file fr @ map (\<lambda>u. u @ [NL]) (hit_urls rs)"
  by (induction rs arbitrary: fr rule: hit_urls.induct)
     (simp_all add: async_body_def record_success_def)

lemma async_loop_stdout:
  "stdout (env (async_loop rs fr)) =
     stdout (env fr) @ map (\<lambda>u. PrintColored u ''green'') (hit_urls rs)"
  by (induction rs arbitrary: fr rule: hit_urls.induct)
     (simp_all add: async_body_def record_success_def print_colored_def)

lemma async_loop_files: "files (env (async_loop rs fr)) = files (env fr)"
  by (induction rs arbitrary: fr rule: hit_urls.induct)
     (simp_all add: async_body_def record_success_def print_colored_def)

lemma async_loop_net: "net (env (async_loop rs fr)) = net (env fr)"
  by (induction rs arbitrary: fr rule: hit_urls.induct)
     (simp_all add: async_body_def record_success_def print_colored_def)

lemma hit_urls_fetch_all:
  "hit_urls (fetch_all tr i (map (probe_url t) ps)) = hits tr t i ps"
  by (induction ps arbitrary: i) (auto simp: fetch_url_def split: reply.splits)

lemma length_fetch_all: "length (fetch_all tr i us) = length us"
  by (induction us arbitrary: i) simp_all

lemma nth_fetch_all:
  "k < length us \<Longrightarrow> fetch_all tr i us ! k = fetch_url tr (i + k) (us ! k)"
proof (induction us arbitrary: i k)
  case Nil
  then show ?case by simp
next
  case (Cons u us)
  show ?case
  proof (cases k)
    case 0
    then show ?thesis by simp
  next
    case (Suc j)
    with Cons.prems have "j < length us" by simp
    from Cons.IH [OF this, of "Suc i"] Suc show ?thesis by simp
  qed
qed

lemma task_done_ok:
  "slots_ok tr urls slots \<Longrightarrow> slots_ok tr urls (fst (task_done tr urls i (slots, w)))"
  by (auto simp: slots_ok_def task_done_def nth_list_update)

lemma task_done_filled:
  "length slots = length urls \<Longrightarrow> k < length urls \<Longrightarrow> slots ! k \<noteq> None \<or> k = i
     \<Longrightarrow> fst (task_done tr urls i (slots, w)) ! k \<noteq> None"
  by (auto simp: task_done_def nth_list_update)

lemma task_done_world:
  "files (snd (task_done tr urls i st)) = files (snd st)"
  "stdout (snd (task_done tr urls i st)) = stdout (snd st)"
  "requests_of (net (snd (task_done tr urls i st))) = requests_of (net (snd st))"
  by (cases st; simp add: task_done_def requests_of_append)+

lemma fold_task_done:
  assumes "slots_ok tr urls (fst st)"
  shows "slots_ok tr urls (fst (fold (task_done tr urls) order st))
       \<and> (\<forall>k<length urls. fst st ! k \<noteq> None \<or> k \<in> set order
             \<longrightarrow> fst (fold (task_done tr urls) order st) ! k \<noteq> None)
       \<and> files (snd (fold (task_done tr urls) order st)) = files (snd st)
       \<and> stdout (snd (fold (task_done tr urls) order st)) = stdout (snd st)
       \<and> requests_of (net (snd (fold (task_done tr urls) order st))) = requests_of (net (snd st))"
  using assms
proof (induction order arbitrary: st)
  case Nil
  then show ?case by simp
next
  case (Cons i order)
  obtain slots w where st: "st = (slots, w)" by (cases st)
  let ?st1 = "task_done tr urls i st"
  have ok1: "slots_ok tr urls (fst ?st1)"
    using Cons.prems task_done_ok [of tr urls slots i w] by (simp add: st)
  have len: "length slots = length urls"
    using Cons.prems by (simp add: st slots_ok_def)
  have filled: "\<forall>k<length urls. fst st ! k \<noteq> None \<or> k = i \<longrightarrow> fst ?st1 ! k \<noteq> None"
    using task_done_filled [OF len, of _ i tr w] by (simp add: st)
  from Cons.IH [OF ok1] filled show ?case
    by (auto simp: task_done_world)
qed


lemma requests_of_map_Request: "requests_of (map Request us) = us"
  by (induction us) simp_all

lemma gather_Some:
  assumes g: "gather tr order urls w = Some (rs, w2)"
  shows "rs = fetch_all tr 0 urls \<and> files w2 = files w \<and> stdout w2 = stdout w
           \<and> requests_of (net w2) = requests_of (net w) @ urls"
proof -
  let ?init = "(replicate (length urls) (None :: fetch_result option),
               w\<lparr>net := net w @ map Request urls\<rparr>)"
  let ?fin = "fold (task_done tr urls) order ?init"
  have ok0: "slots_ok tr urls (fst ?init)"
    by (simp add: slots_ok_def)
  note inv = fold_task_done [OF ok0, of order]
  have ok: "slots_ok tr urls (fst ?fin)"
    using inv by blast
  have len: "length (fst ?fin) = length urls"
    using ok by (simp add: slots_ok_def)
  from g have full: "list_all (\<lambda>s. s \<noteq> None) (fst ?fin)"
    and rs: "rs = map the (fst ?fin)" and w2: "w2 = snd ?fin"
    by (auto simp: gather_def case_prod_unfold Let_def split: if_splits)
  have filled: "\<forall>k<length urls. fst ?fin ! k \<noteq> None"
    using full len by (simp add: list_all_length)
  have val: "\<forall>k<length urls. fst ?fin ! k = Some (fetch_url tr k (urls ! k))"
    using ok filled unfolding slots_ok_def by blast
  have res: "map the (fst ?fin) = fetch_all tr 0 urls"
  proof (rule nth_equalityI)
    show "length (map the (fst ?fin)) = length (fetch_all tr 0 urls)"
      by (simp add: len length_fetch_all)
  next
    fix k assume "k < length (map the (fst ?fin))"
    then have k: "k < length urls" by (simp add: len)
    then show "map the (fst ?fin) ! k = fetch_all tr 0 urls ! k"
      using val by (simp add: len nth_fetch_all)
  qed
  have "files (snd ?fin) = files w" "stdout (snd ?fin) = stdout w"
    "requests_of (net (snd ?fin)) = requests_of (net w) @ urls"
    using inv by (simp_all add: requests_of_append requests_of_map_Request)
  with res rs w2 show ?thesis by simp
qed

lemma gather_returns:
  assumes all: "\<forall>i<length urls. i \<in> set order"
  shows "gather tr order urls w \<noteq> None"
proof -
  let ?init = "(replicate (length urls) (None :: fetch_result option),
               w\<lparr>net := net w @ map Request urls\<rparr>)"
  let ?fin = "fold (task_done tr urls) order ?init"
  have ok0: "slots_ok tr urls (fst ?init)"
    by (simp add: slots_ok_def)
  note inv = fold_task_done [OF ok0, of order]
  have len: "length (fst ?fin) = length urls"
    using inv by (simp add: slots_ok_def)
  have "\<forall>k<length urls. fst ?fin ! k \<noteq> None"
    using inv all by blast
  then have "list_all (\<lambda>s. s \<noteq> None) (fst ?fin)"
    using len by (simp add: list_all_length)
  then show ?thesis
    by (simp add: gather_def case_prod_unfold Let_def)
qed

lemma gather_complete:
  assumes all: "\<forall>i<length urls. i \<in> set order"
  shows "\<exists>w1. gather tr order urls w = Some (fetch_all tr 0 urls, w1)
            \<and> files w1 = files w \<and> stdout w1 = stdout w
            \<and> requests_of (net w1) = requests_of (net w) @ urls"
proof -
  obtain rs w1 where g: "gather tr order urls w = Some (rs, w1)"
    using gather_returns [OF all, of tr w] by auto
  from gather_Some [OF g] g show ?thesis by blast
qed

lemma open_w_Inr:
  assumes "open_w path w = Inr w1"
  shows "files w1 = (files w)(path \<mapsto> log_node w path [])"
    and "stdout w1 = stdout w" and "net w1 = net w"
  using assms by (auto simp: open_w_def log_node_def split: option.splits node.splits if_splits)

lemma close_w_opened:
  assumes "files w path = Some (log_node w0 path [])"
  shows "files (close_w path written w) = (files w)(path \<mapsto> log_node w0 path (concat written))"
    and "stdout (close_w path written w) = stdout w"
    and "net (close_w path written w) = net w"
  using assms by (simp_all add: close_w_def log_node_def)

lemma sync_fuzz_result:
  assumes op: "open_w out_path w = Inr w1"
  shows "\<exists>w'. sync_fuzz tr t ps out_path w = Inr w'
          \<and> files w1 = (files w)(out_path \<mapsto> log_node w out_path [])
          \<and> files w' = (files w)(out_path \<mapsto> log_node w out_path (log_text (hits tr t 0 ps)))
          \<and> stdout w' = stdout w @ map (\<lambda>u. PrintColored u ''green'') (hits tr t 0 ps)
                           @ [Print (summary (length (hits tr t 0 ps)))]
          \<and> net w' = net (env (sync_loop tr t 0 ps \<lparr>success_count = 0, log_file = [], env = w1\<rparr>))"
proof -
  let ?fr = "sync_loop tr t 0 ps \<lparr>success_count = 0, log_file = [], env = w1\<rparr>"
  have w1: "files w1 = (files w)(out_path \<mapsto> log_node w out_path [])"
    "stdout w1 = stdout w" "net w1 = net w"
    using open_w_Inr [OF op] by simp_all
  have f: "files (env ?fr) out_path = Some (log_node w out_path [])"
    by (simp add: sync_loop_files w1)
  let ?w' = "print (summary (success_count ?fr)) (close_w out_path (log_file ?fr) (env ?fr))"
  have "sync_fuzz tr t ps out_path w = Inr ?w'"
    by (simp add: sync_fuzz_def sync_block_def op)
  moreover have "files ?w' = (files w)(out_path \<mapsto> log_node w out_path (log_text (hits tr t 0 ps)))"
    by (simp add: print_def close_w_opened [OF f] sync_loop_files sync_loop_log w1 log_text_def)
  moreover have "stdout ?w' = stdout w @ map (\<lambda>u. PrintColored u ''green'') (hits tr t 0 ps)
                           @ [Print (summary (length (hits tr t 0 ps)))]"
    by (simp add: print_def close_w_opened [OF f] sync_loop_stdout sync_loop_count w1)
  moreover have "net ?w' = net (env ?fr)"
    by (simp add: print_def close_w_opened [OF f])
  ultimately show ?thesis using w1(1) by blast
qed

lemma sync_fuzz_requests:
  assumes "sync_fuzz tr t ps out_path w = Inr w'"
  shows "requests_of (net w') = requests_of (net w) @ map (probe_url t) ps"
proof -
  obtain w1 where op: "open_w out_path w = Inr w1"
    using assms by (auto simp: sync_fuzz_def sync_block_def split: sum.splits)
  let ?fr0 = "\<lparr>success_count = 0, log_file = [], env = w1\<rparr>"
  have "net w' = net (env (sync_loop tr t 0 ps ?fr0))"
    using sync_fuzz_result [OF op, of tr t ps] assms by auto
  moreover obtain es where "net (env (sync_loop tr t 0 ps ?fr0)) = net (env ?fr0) @ es"
    "requests_of es = map (probe_url t) ps"
    using sync_loop_net [of tr t 0 ps ?fr0] by blast
  moreover have "net w1 = net w"
    using open_w_Inr [OF op] by blast
  ultimately show ?thesis by (simp add: requests_of_append)
qed

lemma async_fuzz_Some:
  assumes af: "async_fuzz tr order t ps out_path w = Some (Inr w')"
  shows "\<exists>w1. open_w out_path w = Inr w1
          \<and> files w1 = (files w)(out_path \<mapsto> log_node w out_path [])
          \<and> files w' = (files w)(out_path \<mapsto> log_node w out_path (log_text (hits tr t 0 ps)))
          \<and> stdout w' = stdout w @ map (\<lambda>u. PrintColored u ''green'') (hits tr t 0 ps)
                           @ [Print (summary (length (hits tr t 0 ps)))]
          \<and> requests_of (net w') = requests_of (net w) @ map (probe_url t) ps"
proof -
  let ?urls = "map (probe_url t) ps"
  obtain w1 where op: "open_w out_path w = Inr w1"
    using af by (auto simp: async_fuzz_def async_block_def split: sum.splits)
  obtain rs w2 where g: "gather tr order ?urls w1 = Some (rs, w2)"
    using af by (auto simp: async_fuzz_def async_block_def op split: option.splits)
  have w1: "files w1 = (files w)(out_path \<mapsto> log_node w out_path [])"
    "stdout w1 = stdout w" "net w1 = net w"
    using open_w_Inr [OF op] by simp_all
  let ?rs = "fetch_all tr 0 ?urls"
  from gather_Some [OF g]
  have rs: "rs = ?rs"
    and w2: "files w2 = files w1" "stdout w2 = stdout w1"
      "requests_of (net w2) = requests_of (net w1) @ ?urls"
    by simp_all
  let ?fr = "async_loop ?rs \<lparr>success_count = 0, log_file = [], env = w2\<rparr>"
  have f: "files (env ?fr) out_path = Some (log_node w out_path [])"
    by (simp add: async_loop_files w1 w2)
  let ?w' = "print (summary (success_count ?fr)) (close_w out_path (log_file ?fr) (env ?fr))"
  have "w' = ?w'"
    using af by (simp add: async_fuzz_def async_block_def op g rs)
  moreover have "files ?w' = (files w)(out_path \<mapsto> log_node w out_path (log_text (hits tr t 0 ps)))"
    by (simp add: print_def close_w_opened [OF f] async_loop_files async_loop_log w1 w2
          log_text_def hit_urls_fetch_all)
  moreover have "stdout ?w' = stdout w @ map (\<lambda>u. PrintColored u ''green'') (hits tr t 0 ps)
                           @ [Print (summary (length (hits tr t 0 ps)))]"
    by (simp add: print_def close_w_opened [OF f] async_loop_stdout async_loop_count w1 w2
          hit_urls_fetch_all)
  moreover have "requests_of (net ?w') = requests_of (net w) @ map (probe_url t) ps"
    by (simp add: print_def close_w_opened [OF f] async_loop_net w1 w2)
  ultimately show ?thesis using w1(1) op by blast
qed

lemma async_fuzz_returns:
  assumes op: "open_w out_path w = Inr w1"
    and all: "\<forall>i<length ps. i \<in> set order"
  shows "\<exists>w'. async_fuzz tr order t ps out_path w = Some (Inr w')"
proof -
  from all have "\<forall>i<length (map (probe_url t) ps). i \<in> set order" by simp
  from gather_returns [OF this, of tr w1]
  obtain rs w2 where "gather tr order (map (probe_url t) ps) w1 = Some (rs, w2)" by auto
  then show ?thesis
    by (simp add: async_fuzz_def async_block_def op)
qed

lemma async_fuzz_result:
  assumes op: "open_w out_path w = Inr w1"
    and all: "\<forall>i<length ps. i \<in> set order"
  shows "\<exists>w'. async_fuzz tr order t ps out_path w = Some (Inr w')
          \<and> files w1 = (files w)(out_path \<mapsto> log_node w out_path [])
          \<and> files w' = (files w)(out_path \<mapsto> log_node w out_path (log_text (hits tr t 0 ps)))
          \<and> stdout w' = stdout w @ map (\<lambda>u. PrintColored u ''green'') (hits tr t 0 ps)
                           @ [Print (summary (length (hits tr t 0 ps)))]
          \<and> requests_of (net w') = requests_of (net w) @ map (probe_url t) ps"
proof -
  obtain w' where w': "async_fuzz tr order t ps out_path w = Some (Inr w')"
    using async_fuzz_returns [OF op all] by blast
  from async_fuzz_Some [OF w'] w' op show ?thesis by auto
qed

lemma every_task_resolvesD:
  "every_task_resolves order n \<Longrightarrow> \<forall>i<n. i \<in> set order"
  by (simp add: every_task_resolves_def list_all_iff)




lemma example_open:
  "open_w ''out.txt'' example_world
     = Inr (example_world\<lparr>files := (files example_world)(''out.txt'' \<mapsto> File True True [])\<rparr>)"
  by (simp add: open_w_def example_world_def)

lemma example_order: "every_task_resolves [2, 0, 1] (length example_payloads)"
  by (simp add: every_task_resolves_def example_payloads_def upt_rec)




section \<open>Claims about the two engines\<close>





text \<open>
  Claim C6. In concurrent mode with \<open>N\<close> payloads, whatever the order in which
  the tasks resolve (as long as each does): \<open>gather\<close> returns; \<open>N\<close> requests have
  gone out, one for each payload; there are \<open>N\<close> results, the \<open>i\<close>-th being what
  \<open>fetch_url\<close> returns for the \<open>i\<close>-th payload (a dictionary or an exception);
  and \<open>async_fuzz\<close> prints the summary last, after the loop over all results.
\<close>

theorem async_one_result_per_payload:
  assumes "open_w output_file w = Inr w1"
    and "every_task_resolves order (length payloads)"
  shows "\<exists>results w2 w'.
           gather tr order (map (probe_url base_url) payloads) w1 = Some (results, w2)
         \<and> requests_of (net w2) = requests_of (net w) @ map (probe_url base_url) payloads
         \<and> length results = length payloads
         \<and> (\<forall>i<length payloads.
               results ! i = fetch_url tr i (probe_url base_url (payloads ! i)))
         \<and> async_fuzz tr order base_url payloads output_file w = Some (Inr w')
         \<and> stdout w' = stdout w @ map (\<lambda>u. PrintColored u ''green'') (hit_urls results)
                          @ [Print (summary (length (hit_urls results)))]"
proof -
  let ?urls = "map (probe_url base_url) payloads"
  let ?rs = "fetch_all tr 0 ?urls"
  have all: "\<forall>i<length payloads. i \<in> set order"
    using assms(2) by (rule every_task_resolvesD)
  then have "\<forall>i<length ?urls. i \<in> set order" by simp
  from gather_complete [OF this, of tr w1]
  obtain w2 where g: "gather tr order ?urls w1 = Some (?rs, w2)"
    and rq: "requests_of (net w2) = requests_of (net w1) @ ?urls"
    by blast
  have n: "net w1 = net w"
    using open_w_Inr [OF assms(1)] by blast
  obtain w' where w': "async_fuzz tr order base_url payloads output_file w = Some (Inr w')"
    "stdout w' = stdout w @ map (\<lambda>u. PrintColored u ''green'') (hits tr base_url 0 payloads)
                   @ [Print (summary (length (hits tr base_url 0 payloads)))]"
    using async_fuzz_result [OF assms(1) all, of tr base_url] by blast
  have "\<forall>i<length payloads. ?rs ! i = fetch_url tr i (probe_url base_url (payloads ! i))"
    by (simp add: nth_fetch_all)
  moreover have "length ?rs = length payloads"
    by (simp add: length_fetch_all)
  moreover have "requests_of (net w2) = requests_of (net w) @ ?urls"
    using rq n by simp
  moreover have "stdout w' = stdout w @ map (\<lambda>u. PrintColored u ''green'') (hit_urls ?rs)
                          @ [Print (summary (length (hit_urls ?rs)))]"
    using w'(2) by (simp add: hit_urls_fetch_all)
  ultimately show ?thesis using g w'(1) by blast
qed

text \<open>The theorem at the example inputs, the tasks resolving in the order 2, 0, 1.\<close>

theorem async_one_result_per_payload_witness:
  "open_w ''out.txt'' example_world
     = Inr (example_world\<lparr>files := (files example_world)(''out.txt'' \<mapsto> File True True [])\<rparr>)
   \<and> every_task_resolves [2, 0, 1] (length example_payloads)
   \<and> (\<exists>results w2 w'.
           gather example_transport [2, 0, 1] (map (probe_url example_template) example_payloads)
             (example_world\<lparr>files := (files example_world)(''out.txt'' \<mapsto> File True True [])\<rparr>)
             = Some (results, w2)
         \<and> requests_of (net w2)
             = requests_of (net example_world) @ map (probe_url example_template) example_payloads
         \<and> length results = length example_payloads
         \<and> (\<forall>i<length example_payloads.
               results ! i
                 = fetch_url example_transport i (probe_url example_template (example_payloads ! i)))
         \<and> async_fuzz example_transport [2, 0, 1] example_template example_payloads
               ''out.txt'' example_world = Some (Inr w')
         \<and> stdout w' = stdout example_world
                          @ map (\<lambda>u. PrintColored u ''green'') (hit_urls results)
                          @ [Print (summary (length (hit_urls results)))])"
  using async_one_result_per_payload
          [OF example_open example_order, of example_transport example_template]
        example_open example_order
  by blast



section \<open>The driver, step by step\<close>

lemma confirm_overwrite_world:
  "files (snd (confirm_overwrite stdin p w)) = files w"
  "net (snd (confirm_overwrite stdin p w)) = net w"
  by (simp_all add: confirm_overwrite_def print_def Let_def split: option.splits)

lemma confirm_overwrite_fst:
  "fst (confirm_overwrite stdin p w) =
     (if exists_path w p
      then (case stdin of
              None \<Rightarrow> Some (Traceback EOFError)
            | Some line \<Rightarrow> if declined stdin then Some (SysExit 1) else None)
      else None)"
  by (simp add: confirm_overwrite_def declined_def Let_def split: option.splits)

lemma open_w_confirm:
  "isl (open_w p (snd (confirm_overwrite stdin q w))) = isl (open_w p w)"
  by (simp add: open_w_def confirm_overwrite_world split: option.splits node.splits)

lemma open_r_confirm:
  "open_r p (snd (confirm_overwrite stdin q w)) = open_r p w"
  by (simp add: open_r_def confirm_overwrite_world)

lemma open_r_content:
  "open_r p w = Inr text \<Longrightarrow> content w p = Some text"
  by (auto simp: open_r_def content_def split: option.splits node.splits if_splits)

lemma sync_fuzz_Inl: "sync_fuzz tr t ps p w = Inl e \<longleftrightarrow> open_w p w = Inl e"
  by (auto simp: sync_fuzz_def sync_block_def split: sum.splits)

lemma async_fuzz_Inl: "async_fuzz tr order t ps p w = Some (Inl e) \<longleftrightarrow> open_w p w = Inl e"
  by (auto simp: async_fuzz_def async_block_def Let_def split: sum.splits option.splits)

lemma run_mode_cases:
  assumes "run_mode tr order a ps w = Some (x, w')"
  shows "(isl (open_w (arg_output a) w) \<and> (\<exists>e. x = Traceback e) \<and> w' = w)
         \<or> (\<not> isl (open_w (arg_output a) w) \<and> x = Finished)"
proof (cases "arg_mode a")
  case Sync
  show ?thesis
  proof (cases "sync_fuzz tr (arg_url a) ps (arg_output a) w")
    case (Inl e)
    then have "open_w (arg_output a) w = Inl e" by (simp add: sync_fuzz_Inl)
    with assms Sync Inl show ?thesis by (auto simp: run_mode_def)
  next
    case (Inr w1)
    then have "\<not> isl (open_w (arg_output a) w)"
      by (auto simp: sync_fuzz_def sync_block_def split: sum.splits)
    with assms Sync Inr show ?thesis by (auto simp: run_mode_def)
  qed
next
  case Async
  show ?thesis
  proof (cases "async_fuzz tr order (arg_url a) ps (arg_output a) w")
    case None
    with assms Async show ?thesis by (auto simp: run_mode_def)
  next
    case (Some r)
    show ?thesis
    proof (cases r)
      case (Inl e)
      with Some have "open_w (arg_output a) w = Inl e" by (simp add: async_fuzz_Inl)
      with assms Async Some Inl show ?thesis by (auto simp: run_mode_def)
    next
      case (Inr w1)
      with Some have "\<not> isl (open_w (arg_output a) w)"
        using async_fuzz_Some [of tr order "arg_url a" ps "arg_output a" w w1] by auto
      with assms Async Some Inr show ?thesis by (auto simp: run_mode_def)
    qed
  qed
qed

lemma run_mode_Finished:
  assumes "run_mode tr order a ps w = Some (Finished, w')"
  shows "files w' = (files w)(arg_output a \<mapsto>
                       log_node w (arg_output a) (log_text (hits tr (arg_url a) 0 ps)))
          \<and> stdout w' = stdout w
               @ map (\<lambda>u. PrintColored u ''green'') (hits tr (arg_url a) 0 ps)
               @ [Print (summary (length (hits tr (arg_url a) 0 ps)))]
          \<and> requests_of (net w') = requests_of (net w) @ map (probe_url (arg_url a)) ps"
proof (cases "arg_mode a")
  case Sync
  with assms have sf: "sync_fuzz tr (arg_url a) ps (arg_output a) w = Inr w'"
    by (simp add: run_mode_def split: sum.splits)
  then obtain w1 where op: "open_w (arg_output a) w = Inr w1"
    by (auto simp: sync_fuzz_def sync_block_def split: sum.splits)
  from sync_fuzz_result [OF op, of tr "arg_url a" ps] sf sync_fuzz_requests [OF sf]
  show ?thesis by auto
next
  case Async
  with assms have "async_fuzz tr order (arg_url a) ps (arg_output a) w = Some (Inr w')"
    by (simp add: run_mode_def split: sum.splits option.splits)
  from async_fuzz_Some [OF this] show ?thesis by blast
qed

lemma run_mode_returns:
  assumes op: "\<not> isl (open_w (arg_output a) w)"
    and all: "arg_mode a = Async \<longrightarrow> every_task_resolves order (length ps)"
  shows "\<exists>w'. run_mode tr order a ps w = Some (Finished, w')"
proof -
  obtain w1 where w1: "open_w (arg_output a) w = Inr w1"
    using op by (cases "open_w (arg_output a) w") simp_all
  show ?thesis
  proof (cases "arg_mode a")
    case Sync
    with sync_fuzz_result [OF w1, of tr "arg_url a" ps] show ?thesis
      by (auto simp: run_mode_def)
  next
    case Async
    with all have "\<forall>i<length ps. i \<in> set order"
      by (simp add: every_task_resolvesD)
    from async_fuzz_returns [OF w1 this, of tr "arg_url a"] Async show ?thesis
      by (auto simp: run_mode_def)
  qed
qed



lemma preflight_passed:
  assumes "\<not> input_error urlparse stdin a w" and "\<not> prompt_eof stdin a w"
  shows "is_valid_url urlparse (arg_url a)" "AT \<in> set (arg_url a)"
    "isfile w (arg_wordlist a)" "\<not> isl (open_r (arg_wordlist a) w)"
  using assms by (simp_all add: input_error_def)

lemma prompt_passed:
  assumes "\<not> input_error urlparse stdin a w" and "\<not> prompt_eof stdin a w"
  shows "fst (confirm_overwrite stdin (arg_output a) w) = None"
  using assms by (cases stdin) (simp_all add: input_error_def prompt_eof_def confirm_overwrite_fst)


lemma main_reaches_run:
  assumes v: "is_valid_url urlparse (arg_url a)" "AT \<in> set (arg_url a)"
    "isfile w (arg_wordlist a)"
    and c: "confirm_overwrite stdin (arg_output a) w = (None, w1)"
    and t: "open_r (arg_wordlist a) w1 = Inr wtext"
  shows "main urlparse tr order stdin a w = run_mode tr order a (readlines wtext) w1"
  unfolding main_def using v c t by simp


lemma main_stops_at_prompt:
  assumes v: "is_valid_url urlparse (arg_url a)" "AT \<in> set (arg_url a)"
    "isfile w (arg_wordlist a)"
    and c: "confirm_overwrite stdin (arg_output a) w = (Some x, w1)"
  shows "main urlparse tr order stdin a w = Some (x, w1)"
  unfolding main_def using v c by simp

lemma main_stops_at_read:
  assumes v: "is_valid_url urlparse (arg_url a)" "AT \<in> set (arg_url a)"
    "isfile w (arg_wordlist a)"
    and c: "confirm_overwrite stdin (arg_output a) w = (None, w1)"
    and t: "open_r (arg_wordlist a) w1 = Inl e"
  shows "main urlparse tr order stdin a w
           = Some (SysExit 1, print (''[!] Error reading wordlist: '' @ str_exn e) w1)"
  unfolding main_def using v c t by simp

lemma main_stops_at_checks:
  assumes "\<not> is_valid_url urlparse (arg_url a) \<or> AT \<notin> set (arg_url a)
           \<or> \<not> isfile w (arg_wordlist a)"
  shows "\<exists>msg. main urlparse tr order stdin a w = Some (SysExit 1, print msg w)"
  unfolding main_def using assms by auto

lemma main_started:
  assumes "\<not> input_error urlparse stdin a w" and "\<not> prompt_eof stdin a w"
  shows "\<exists>wtext. content w (arg_wordlist a) = Some wtext
          \<and> main urlparse tr order stdin a w
              = run_mode tr order a (readlines wtext)
                  (snd (confirm_overwrite stdin (arg_output a) w))"
proof -
  let ?c = "confirm_overwrite stdin (arg_output a) w"
  have c: "?c = (None, snd ?c)"
    using prompt_passed [OF assms] by (simp add: prod_eq_iff)
  obtain wtext where t: "open_r (arg_wordlist a) w = Inr wtext"
    using preflight_passed(4) [OF assms] by (cases "open_r (arg_wordlist a) w") simp_all
  have t': "open_r (arg_wordlist a) (snd ?c) = Inr wtext"
    using t by (simp add: open_r_confirm)
  have "main urlparse tr order stdin a w = run_mode tr order a (readlines wtext) (snd ?c)"
    using main_reaches_run [OF preflight_passed(1-3) [OF assms] c t'] .
  with open_r_content [OF t] show ?thesis by blast
qed

lemma main_abort:
  assumes "input_error urlparse stdin a w \<or> prompt_eof stdin a w"
  shows "\<exists>x w'. main urlparse tr order stdin a w = Some (x, w')
          \<and> exit_status x = 1 \<and> files w' = files w \<and> net w' = net w"
proof (cases "\<not> is_valid_url urlparse (arg_url a) \<or> AT \<notin> set (arg_url a)
           \<or> \<not> isfile w (arg_wordlist a)")
  case True
  from main_stops_at_checks [OF this, of tr order stdin]
  obtain msg where "main urlparse tr order stdin a w = Some (SysExit 1, print msg w)"
    by blast
  then show ?thesis
    by (simp add: print_def)
next
  case False
  then have v: "is_valid_url urlparse (arg_url a)" "AT \<in> set (arg_url a)"
    "isfile w (arg_wordlist a)"
    by simp_all
  let ?c = "confirm_overwrite stdin (arg_output a) w"
  show ?thesis
  proof (cases "fst ?c")
    case (Some x)
    then have c: "?c = (Some x, snd ?c)"
      by (simp add: prod_eq_iff)
    have "exit_status x = 1"
      using Some by (auto simp: confirm_overwrite_fst split: option.splits if_splits)
    with main_stops_at_prompt [OF v c] show ?thesis
      by (simp add: confirm_overwrite_world)
  next
    case None
    then have c: "?c = (None, snd ?c)"
      by (simp add: prod_eq_iff)
    from None have "\<not> (exists_path w (arg_output a) \<and> (declined stdin \<or> stdin = None))"
      by (auto simp: confirm_overwrite_fst split: option.splits if_splits)
    with assms v have "isl (open_r (arg_wordlist a) w)"
      by (auto simp: input_error_def prompt_eof_def)
    then obtain e where "open_r (arg_wordlist a) w = Inl e"
      by (cases "open_r (arg_wordlist a) w") simp_all
    then have "open_r (arg_wordlist a) (snd ?c) = Inl e"
      by (simp add: open_r_confirm)
    from main_stops_at_read [OF v c this] show ?thesis
      by (simp add: print_def confirm_overwrite_world)
  qed
qed


lemma log_node_confirm:
  "log_node (snd (confirm_overwrite stdin q w)) p c = log_node w p c"
  by (simp add: log_node_def confirm_overwrite_world)

lemma main_Finished:
  assumes "main urlparse tr order stdin a w = Some (Finished, w')"
  shows "\<not> input_error urlparse stdin a w" and "\<not> prompt_eof stdin a w"
  using main_abort [of urlparse stdin a w tr order] assms by auto

lemma main_completes:
  assumes "\<not> input_error urlparse stdin a w" and "\<not> prompt_eof stdin a w"
    and "\<not> output_unwritable a w"
    and "content w (arg_wordlist a) = Some wtext"
    and "arg_mode a = Async \<longrightarrow> every_task_resolves order (length (readlines wtext))"
  shows "\<exists>w'. main urlparse tr order stdin a w = Some (Finished, w')"
proof -
  let ?w1 = "snd (confirm_overwrite stdin (arg_output a) w)"
  from main_started [OF assms(1,2), of tr order] assms(4)
  have m: "main urlparse tr order stdin a w = run_mode tr order a (readlines wtext) ?w1"
    by auto
  have "\<not> isl (open_w (arg_output a) ?w1)"
    using assms(3) by (simp add: output_unwritable_def open_w_confirm)
  from run_mode_returns [OF this assms(5), of tr] m show ?thesis by simp
qed

lemma main_run:
  assumes "main urlparse tr order stdin a w = Some (Finished, w')"
    and "content w (arg_wordlist a) = Some wtext"
  shows "files w' = (files w)(arg_output a \<mapsto>
           log_node w (arg_output a) (log_text (hits tr (arg_url a) 0 (readlines wtext))))"
    and "stdout w' = stdout (snd (confirm_overwrite stdin (arg_output a) w))
           @ map (\<lambda>u. PrintColored u ''green'') (hits tr (arg_url a) 0 (readlines wtext))
           @ [Print (summary (length (hits tr (arg_url a) 0 (readlines wtext))))]"
    and "requests_of (net w')
           = requests_of (net w) @ map (probe_url (arg_url a)) (readlines wtext)"
    and "\<not> output_unwritable a w"
proof -
  let ?w1 = "snd (confirm_overwrite stdin (arg_output a) w)"
  note ok = main_Finished [OF assms(1)]
  from main_started [OF ok, of tr order] assms
  have m: "run_mode tr order a (readlines wtext) ?w1 = Some (Finished, w')"
    by auto
  from run_mode_Finished [OF m]
  show "files w' = (files w)(arg_output a \<mapsto>
           log_node w (arg_output a) (log_text (hits tr (arg_url a) 0 (readlines wtext))))"
    and "stdout w' = stdout ?w1
           @ map (\<lambda>u. PrintColored u ''green'') (hits tr (arg_url a) 0 (readlines wtext))
           @ [Print (summary (length (hits tr (arg_url a) 0 (readlines wtext))))]"
    and "requests_of (net w')
           = requests_of (net w) @ map (probe_url (arg_url a)) (readlines wtext)"
    by (simp_all add: confirm_overwrite_world log_node_confirm)
  from run_mode_cases [OF m] show "\<not> output_unwritable a w"
    by (simp add: output_unwritable_def open_w_confirm)
qed

lemma replace_empty: "replace s c [] = filter (\<lambda>x. x \<noteq> c) s"
  by (induction s) simp_all

lemma strip_blank:
  assumes "list_all isspace l"
  shows "strip l = []"
proof -
  have d: "dropWhile isspace l = []"
    using assms by (induction l) simp_all
  show ?thesis
    unfolding strip_def lstrip_def rstrip_def d by simp
qed

lemma strip_newline: "strip (l @ [NL]) = strip l"
proof (cases "list_all isspace l")
  case True
  then have "list_all isspace (l @ [NL])"
    by (simp add: isspace_def)
  with True show ?thesis
    by (simp add: strip_blank del: list_all_append)
next
  case False
  then obtain x where "x \<in> set l" "\<not> isspace x"
    by (auto simp: list_all_iff)
  then have "lstrip (l @ [NL]) = lstrip l @ [NL]"
    unfolding lstrip_def by (rule dropWhile_append1)
  then show ?thesis
    by (simp add: strip_def rstrip_def isspace_def)
qed

text \<open>A line of a wordlist, stripped, holds no line feed.\<close>

lemma set_strip: "set (strip s) \<subseteq> set s"
proof -
  have "set (rev (dropWhile isspace (rev (dropWhile isspace s)))) \<subseteq> set (dropWhile isspace s)"
    using set_dropWhileD [of _ isspace "rev (dropWhile isspace s)"] by auto
  also have "\<dots> \<subseteq> set s"
    using set_dropWhileD [of _ isspace s] by auto
  finally show ?thesis
    by (simp add: strip_def lstrip_def rstrip_def)
qed

lemma split_lines_shape:
  assumes "NL \<notin> set cur" and "l \<in> set (split_lines cur s)"
  shows "\<exists>b. NL \<notin> set b \<and> (l = b \<or> l = b @ [NL])"
  using assms
proof (induction s arbitrary: cur)
  case Nil
  then show ?case by (auto split: if_splits)
next
  case (Cons c s)
  show ?case
  proof (cases "c = NL")
    case True
    with Cons.prems have "l = cur @ [NL] \<or> l \<in> set (split_lines [] s)"
      by simp
    then show ?thesis
    proof
      assume "l = cur @ [NL]"
      with Cons.prems(1) show ?thesis by blast
    next
      assume "l \<in> set (split_lines [] s)"
      with Cons.IH [of "[]"] show ?thesis by simp
    qed
  next
    case False
    with Cons.prems have "l \<in> set (split_lines (cur @ [c]) s)" by simp
    moreover have "NL \<notin> set (cur @ [c])"
      using False Cons.prems(1) by auto
    ultimately show ?thesis
      using Cons.IH [of "cur @ [c]"] by blast
  qed
qed

lemma readlines_stripped:
  assumes "p \<in> set (readlines s)"
  shows "NL \<notin> set (strip p)"
proof -
  obtain b where b: "NL \<notin> set b" "p = b \<or> p = b @ [NL]"
    using split_lines_shape [of "[]" p "universal_newlines s"] assms
    by (auto simp: readlines_def)
  then have "strip p = strip b"
    by (auto simp: strip_newline)
  with b(1) set_strip [of b] show ?thesis by auto
qed

lemmas example_defs =
  example_args_def example_template_def example_world_def example_urlparse_def
  example_payloads_def

lemma example_input_ok:
  "\<not> input_error example_urlparse (Some ''y'') (example_args p m) example_world"
  by (simp add: input_error_def is_valid_url_def isfile_def declined_def open_r_def
        lower_def lower_char_def strip_def lstrip_def rstrip_def isspace_def example_defs)

lemma example_prompt_ok:
  "\<not> prompt_eof (Some ''y'') (example_args p m) example_world"
  by (simp add: prompt_eof_def)

lemma example_content:
  "content example_world ''words.txt'' = Some example_wordlist"
  by (simp add: content_def example_world_def)

lemma example_readlines:
  "readlines example_wordlist = example_payloads"
  by (simp add: readlines_def example_payloads_def example_wordlist_def)

lemma example_writable:
  "\<not> output_unwritable (example_args ''out.txt'' m) example_world"
  "\<not> output_unwritable (example_args ''old.txt'' m) example_world"
  by (simp_all add: output_unwritable_def open_w_def example_defs)





section \<open>Claims about the driver\<close>

text \<open>
  Claim C9. When the wordlist path names nothing, \<open>main\<close> ends with status 1,
  and it leaves every file as it was (no output file is created, an existing one
  is not truncated) and sends no request.
\<close>

theorem missing_wordlist_leaves_output_alone:
  assumes "files w (arg_wordlist a) = None"
  shows "\<exists>x w'. main urlparse tr order stdin a w = Some (x, w')
          \<and> exit_status x = 1 \<and> files w' = files w \<and> net w' = net w"
proof -
  from assms have "input_error urlparse stdin a w"
    by (simp add: input_error_def isfile_def)
  then show ?thesis
    using main_abort [of urlparse stdin a w tr order] by blast
qed

text \<open>The theorem for a missing wordlist and the existing log \<open>old.txt\<close>.\<close>

theorem missing_wordlist_leaves_output_alone_witness:
  "files example_world ''missing.txt'' = None
   \<and> (\<exists>x w'. main example_urlparse example_transport [] None
                 \<lparr>arg_url = example_template, arg_wordlist = ''missing.txt'',
                  arg_output = ''old.txt'', arg_mode = Sync\<rparr> example_world = Some (x, w')
          \<and> exit_status x = 1 \<and> files w' = files example_world
          \<and> net w' = net example_world)"
proof -
  have h: "files example_world ''missing.txt'' = None"
    by (simp add: example_world_def)
  from missing_wordlist_leaves_output_alone
         [of example_world "\<lparr>arg_url = example_template, arg_wordlist = ''missing.txt'',
                  arg_output = ''old.txt'', arg_mode = Sync\<rparr>"
             example_urlparse example_transport "[]" None] h
  show ?thesis by simp
qed







lemma example_urls:
  "map (probe_url example_template) example_payloads
     = [''http://example.test/admin'', ''http://example.test/login'', ''http://example.test/'']"
  by (simp add: example_template_def example_payloads_def probe_url_def strip_def lstrip_def
        rstrip_def isspace_def)

lemma example_hits:
  "hits example_transport example_template 0 (readlines example_wordlist)
     = [''http://example.test/admin'', ''http://example.test/'']"
  "hits flaky example_template 0 (readlines example_wordlist) = [''http://example.test/'']"
  unfolding example_readlines
  by (simp_all add: example_transport_def flaky_def example_template_def example_payloads_def
        probe_url_def strip_def lstrip_def rstrip_def isspace_def)

text \<open>
  Claim C7. In a run that completes, in either mode, the requests are, in
  order, one for each line that \<open>readlines\<close> gives for the wordlist, none left
  out: the template with each \<open>@\<close> replaced by the line stripped of surrounding
  whitespace. Stripping removes the line feed at the end of a line. For a line
  of whitespace only (the empty line included) the URL is the template with the
  placeholder removed.
\<close>

theorem every_line_is_probed_stripped:
  assumes "main urlparse tr order stdin a w = Some (Finished, w')"
    and "content w (arg_wordlist a) = Some wtext"
  shows "requests_of (net w')
           = requests_of (net w)
               @ map (\<lambda>line. replace (arg_url a) AT (strip line)) (readlines wtext)
       \<and> (\<forall>line. strip (line @ [NL]) = strip line)
       \<and> (\<forall>line\<in>set (readlines wtext). list_all isspace line \<longrightarrow>
             replace (arg_url a) AT (strip line) = filter (\<lambda>c. c \<noteq> AT) (arg_url a))"
proof (intro conjI allI ballI impI)
  have "map (\<lambda>line. replace (arg_url a) AT (strip line)) (readlines wtext)
          = map (probe_url (arg_url a)) (readlines wtext)"
    by (simp add: probe_url_def)
  with main_run(3) [OF assms]
  show "requests_of (net w') = requests_of (net w)
          @ map (\<lambda>line. replace (arg_url a) AT (strip line)) (readlines wtext)"
    by simp
next
  fix line
  show "strip (line @ [NL]) = strip line"
    by (rule strip_newline)
next
  fix line
  assume "list_all isspace line"
  then show "replace (arg_url a) AT (strip line) = filter (\<lambda>c. c \<noteq> AT) (arg_url a)"
    by (simp add: strip_blank replace_empty)
qed

text \<open>The theorem for the example wordlist, whose third line is empty.\<close>

theorem every_line_is_probed_stripped_witness:
  "\<exists>w'. main example_urlparse example_transport [] (Some ''y'')
            (example_args ''out.txt'' Sync) example_world = Some (Finished, w')
      \<and> content example_world ''words.txt'' = Some example_wordlist
      \<and> readlines example_wordlist = [''admin'' @ [NL], ''login'' @ [NL], [NL]]
      \<and> requests_of (net w')
           = [''http://example.test/admin'', ''http://example.test/login'',
              ''http://example.test/'']
      \<and> list_all isspace [NL]
      \<and> replace ''http://example.test/@'' AT (strip [NL]) = ''http://example.test/''"
proof -
  let ?a = "example_args ''out.txt'' Sync"
  have wl: "content example_world (arg_wordlist ?a) = Some example_wordlist"
    using example_content by (simp add: example_args_def)
  have "arg_mode ?a = Async \<longrightarrow> every_task_resolves [] (length (readlines example_wordlist))"
    by (simp add: example_args_def)
  from main_completes [OF example_input_ok example_prompt_ok example_writable(1) wl this]
  obtain w' where m: "main example_urlparse example_transport [] (Some ''y'') ?a example_world
      = Some (Finished, w')"
    by blast
  have sp: "list_all isspace [NL]"
    by (simp add: isspace_def)
  have mem: "[NL] \<in> set (readlines example_wordlist)"
    by (simp add: example_readlines example_payloads_def)
  note t = every_line_is_probed_stripped [OF m wl]
  have "requests_of (net w')
          = [''http://example.test/admin'', ''http://example.test/login'',
             ''http://example.test/'']"
    using t example_urls [unfolded probe_url_def]
    by (simp add: example_readlines example_args_def example_world_def)
  moreover have "replace ''http://example.test/@'' AT (strip [NL]) = ''http://example.test/''"
    using t mem sp by (auto simp: example_args_def example_template_def)
  ultimately show ?thesis
    using m example_content sp
    by (auto simp: example_readlines example_payloads_def)
qed


lemma input_error_files:
  "files w1 = files w \<Longrightarrow> input_error urlparse stdin a w1 = input_error urlparse stdin a w"
  by (simp add: input_error_def isfile_def exists_path_def open_r_def)

lemma prompt_eof_files:
  "files w1 = files w \<Longrightarrow> prompt_eof stdin a w1 = prompt_eof stdin a w"
  by (simp add: prompt_eof_def exists_path_def)

lemma output_unwritable_files:
  "files w1 = files w \<Longrightarrow> output_unwritable a w1 = output_unwritable a w"
  by (simp add: output_unwritable_def open_w_def split: option.splits node.splits)

lemma content_files:
  "files w1 = files w \<Longrightarrow> content w1 p = content w p"
  by (simp add: content_def)

text \<open>The example world after a run that has logged \<open>c\<close> to \<open>out.txt\<close>.\<close>

lemma example_after_run:
  fixes c :: string
  defines "w1 \<equiv> example_world\<lparr>files := (files example_world)(''out.txt'' \<mapsto>
                     log_node example_world ''out.txt'' c)\<rparr>"
  shows "\<not> input_error example_urlparse (Some ''y'') (example_args ''out.txt'' m) w1"
    and "\<not> prompt_eof (Some ''y'') (example_args ''out.txt'' m) w1"
    and "\<not> output_unwritable (example_args ''out.txt'' m) w1"
    and "content w1 ''words.txt'' = Some example_wordlist"
    and "content w1 ''out.txt'' = Some c"
  unfolding w1_def
  by (simp_all add: input_error_def is_valid_url_def isfile_def declined_def open_r_def
        lower_def lower_char_def strip_def lstrip_def rstrip_def isspace_def example_defs
        prompt_eof_def output_unwritable_def open_w_def content_def log_node_def)

text \<open>
  Claim C8. Two runs that complete, the second started in the world that the
  first has left and with the same output path: after the first run the output
  path exists, so the second has asked and the operator has confirmed; and after
  the second run the log holds the URLs that the second run found answered with
  200, one on each line, in order, and nothing of the first run.
\<close>

theorem second_run_replaces_log:
  assumes "main urlparse1 tr1 order1 stdin1 a1 w0 = Some (Finished, w1)"
    and "main urlparse2 tr2 order2 stdin2 a2 w1 = Some (Finished, w2)"
    and "arg_output a2 = arg_output a1"
    and "content w1 (arg_wordlist a2) = Some wtext"
  shows "exists_path w1 (arg_output a1) \<and> stdin2 \<noteq> None \<and> \<not> declined stdin2
       \<and> content w2 (arg_output a1)
           = Some (log_text (hits tr2 (arg_url a2) 0 (readlines wtext)))"
proof -
  obtain wtext1 where "content w0 (arg_wordlist a1) = Some wtext1"
    using main_started [OF main_Finished [OF assms(1)], of tr1 order1] by blast
  from main_run(1) [OF assms(1) this]
  have ex: "exists_path w1 (arg_output a1)"
    by (simp add: exists_path_def)
  from main_Finished [OF assms(2)] ex assms(3)
  have "stdin2 \<noteq> None" "\<not> declined stdin2"
    by (auto simp: input_error_def prompt_eof_def)
  moreover from main_run(1) [OF assms(2,4)] assms(3)
  have "content w2 (arg_output a1)
          = Some (log_text (hits tr2 (arg_url a2) 0 (readlines wtext)))"
    by (simp add: content_def log_node_def)
  ultimately show ?thesis using ex by simp
qed

text \<open>
  The theorem for a sequential run that logs two URLs, followed by a concurrent
  run to the same path whose first probe fails: the log holds one URL.
\<close>

theorem second_run_replaces_log_witness:
  "\<exists>w1 w2.
      main example_urlparse example_transport [] None
        (example_args ''out.txt'' Sync) example_world = Some (Finished, w1)
    \<and> main example_urlparse flaky [2, 0, 1] (Some ''y'')
        (example_args ''out.txt'' Async) w1 = Some (Finished, w2)
    \<and> content w1 ''words.txt'' = Some example_wordlist
    \<and> content w1 ''out.txt''
        = Some (log_text [''http://example.test/admin'', ''http://example.test/''])
    \<and> content w2 ''out.txt'' = Some (log_text [''http://example.test/''])"
proof -
  let ?a1 = "example_args ''out.txt'' Sync"
  let ?a2 = "example_args ''out.txt'' Async"
  let ?c = "log_text (hits example_transport (arg_url ?a1) 0 (readlines example_wordlist))"
  let ?v = "example_world\<lparr>files := (files example_world)(''out.txt'' \<mapsto>
                     log_node example_world ''out.txt'' ?c)\<rparr>"
  have wl: "content example_world (arg_wordlist ?a1) = Some example_wordlist"
    using example_content by (simp add: example_args_def)
  have i1: "\<not> input_error example_urlparse None ?a1 example_world"
    using example_input_ok [of "''out.txt''" Sync]
    by (simp add: input_error_def declined_def)
  have p1: "\<not> prompt_eof None ?a1 example_world"
    by (simp add: prompt_eof_def exists_path_def example_args_def example_world_def)
  have "arg_mode ?a1 = Async \<longrightarrow> every_task_resolves [] (length (readlines example_wordlist))"
    by (simp add: example_args_def)
  from main_completes [OF i1 p1 example_writable(1) wl this]
  obtain w1 where r1: "main example_urlparse example_transport [] None ?a1 example_world
      = Some (Finished, w1)"
    by blast
  from main_run(1) [OF r1 wl]
  have f1: "files w1 = files ?v"
    by (simp add: example_args_def)
  have i2: "\<not> input_error example_urlparse (Some ''y'') ?a2 w1"
    using example_after_run(1) [of Async ?c] input_error_files [OF f1] by simp
  have p2: "\<not> prompt_eof (Some ''y'') ?a2 w1"
    by (simp add: prompt_eof_def)
  have u2: "\<not> output_unwritable ?a2 w1"
    using example_after_run(3) [of Async ?c] output_unwritable_files [OF f1] by simp
  have wl2: "content w1 (arg_wordlist ?a2) = Some example_wordlist"
    using example_after_run(4) [of ?c] content_files [OF f1]
    by (simp add: example_args_def)
  have c1: "content w1 ''out.txt'' = Some ?c"
    using example_after_run(5) [of ?c] content_files [OF f1] by simp
  have "arg_mode ?a2 = Async \<longrightarrow>
          every_task_resolves [2, 0, 1] (length (readlines example_wordlist))"
    using example_order by (simp add: example_readlines)
  from main_completes [OF i2 p2 u2 wl2 this]
  obtain w2 where r2: "main example_urlparse flaky [2, 0, 1] (Some ''y'') ?a2 w1
      = Some (Finished, w2)"
    by blast
  have "arg_output ?a2 = arg_output ?a1"
    by (simp add: example_args_def)
  from second_run_replaces_log [OF r1 r2 this wl2]
  have "content w2 ''out.txt'' = Some (log_text [''http://example.test/''])"
    by (simp add: example_args_def example_hits)
  moreover have "content w1 ''out.txt''
      = Some (log_text [''http://example.test/admin'', ''http://example.test/''])"
    using c1 by (simp add: example_args_def example_hits)
  moreover have "content w1 ''words.txt'' = Some example_wordlist"
    using wl2 by (simp add: example_args_def)
  ultimately show ?thesis using r1 r2 by blast
qed

end
